theory Spec2Isabelle
  imports Complex_Main "HOL-Library.Multiset" "HOL-Library.Log_Nat"
begin

section \<open>Data model\<close>

text \<open>
  The script \<^verbatim>\<open>main.py\<close> works on one pandas table \<^verbatim>\<open>df\<close>. The numbers of the
  table are 64-bit floats. A float that is not \<^verbatim>\<open>NaN\<close> is minus infinity, plus
  infinity, or a finite value, kept as the real number it denotes; the sign of zero is not
  kept (it decides no comparison and no missing cell). An integer column is modelled by
  the floats of the same values, which is exact below \<open>2^53\<close>.
\<close>

datatype double = MInf | Fin real | PInf

instantiation double :: linorder
begin

fun less_eq_double :: "double \<Rightarrow> double \<Rightarrow> bool" where
  "less_eq_double MInf _ = True"
| "less_eq_double _ PInf = True"
| "less_eq_double (Fin x) (Fin y) = (x \<le> y)"
| "less_eq_double _ _ = False"

definition less_double :: "double \<Rightarrow> double \<Rightarrow> bool" where
  "less_double a b = (a \<le> b \<and> \<not> b \<le> a)"

instance
proof
  fix x y z :: double
  show "(x < y) = (x \<le> y \<and> \<not> y \<le> x)" by (simp add: less_double_def)
  show "x \<le> x" by (cases x) auto
  show "x \<le> y \<Longrightarrow> y \<le> z \<Longrightarrow> x \<le> z" by (cases x; cases y; cases z) auto
  show "x \<le> y \<Longrightarrow> y \<le> x \<Longrightarrow> x = y" by (cases x; cases y) auto
  show "x \<le> y \<or> y \<le> x" by (cases x; cases y) auto
qed

end

text \<open>
  A cell of the table is missing (pandas' \<^verbatim>\<open>NaN\<close>), a float, or a piece of text; cells of
  other kinds (booleans, dates) are outside the model. A column (\<^verbatim>\<open>Series\<close>) is the list
  of its cells in row order, and the table maps a column name to its column; \<open>nrows\<close>
  is \<^verbatim>\<open>len(df)\<close>.
\<close>

datatype cell = NaN | is_Num: Num double | is_Str: Str string

type_synonym series = "cell list"

record dataframe =
  nrows :: nat
  columns :: "string \<rightharpoonup> series"

text \<open>A float scalar computed by the library: \<open>None\<close> is \<^verbatim>\<open>NaN\<close>.\<close>

type_synonym scalar = "double option"

datatype error = FileNotFoundError | ParserError | KeyError | TypeError

text \<open>Lines 56-60: \<^verbatim>\<open>numeric_cols = [...]\<close>.\<close>

definition numeric_cols :: "string list" where
  "numeric_cols =
     [''Financial Loss (in Million $)'',
      ''Number of Affected Users'',
      ''Incident Resolution Time (in Hours)'']"

section \<open>Float arithmetic\<close>

text \<open>
  Rounding of a real number to the nearest 64-bit float, ties to the even significand
  (IEEE 754 binary64): 53 significant bits, exponents of the last bit from \<open>-1074\<close> (the
  subnormal numbers) to \<open>971\<close>, and infinity beyond the largest finite value.
  \<open>ilog2 x\<close> is the exponent of the binade of \<open>x\<close>, the integer \<open>e\<close> with
  \<open>2^e \<le> \<bar>x\<bar> < 2^(e+1)\<close>.
\<close>

definition pow2 :: "int \<Rightarrow> real" where
  "pow2 e = (if 0 \<le> e then 2 ^ nat e else 1 / 2 ^ nat (- e))"

definition ilog2 :: "real \<Rightarrow> int" where
  "ilog2 x = (if 1 \<le> \<bar>x\<bar> then bitlen \<lfloor>\<bar>x\<bar>\<rfloor> - 1 else - bitlen (\<lceil>1 / \<bar>x\<bar>\<rceil> - 1))"

definition round_half_even :: "real \<Rightarrow> int" where
  "round_half_even y =
     (let f = \<lfloor>y\<rfloor>; d = y - of_int f in
      if d < 1 / 2 then f else if 1 / 2 < d then f + 1 else if even f then f else f + 1)"

definition max_double :: real where
  "max_double = (2 ^ 53 - 1) * 2 ^ 971"

definition rnd :: "real \<Rightarrow> double" where
  "rnd x =
     (if x = 0 then Fin 0
      else
        let q = max (ilog2 x - 52) (- 1074);
            y = of_int (round_half_even (x / pow2 q)) * pow2 q
        in if max_double < y then PInf else if y < - max_double then MInf else Fin y)"

text \<open>A real number that is the value of a float.\<close>

definition is_double :: "real \<Rightarrow> bool" where
  "is_double x \<longleftrightarrow> rnd x = Fin x"

text \<open>
  The float operations the script and the library use: the exact result rounded, with
  the rules for the infinities; \<^verbatim>\<open>inf - inf\<close> and \<^verbatim>\<open>0 * inf\<close> are \<^verbatim>\<open>NaN\<close>, and
  \<^verbatim>\<open>NaN\<close> propagates.
\<close>

fun fneg :: "double \<Rightarrow> double" where
  "fneg MInf = PInf"
| "fneg (Fin x) = Fin (- x)"
| "fneg PInf = MInf"

fun fadd :: "double \<Rightarrow> double \<Rightarrow> scalar" where
  "fadd (Fin x) (Fin y) = Some (rnd (x + y))"
| "fadd PInf MInf = None"
| "fadd MInf PInf = None"
| "fadd PInf _ = Some PInf"
| "fadd _ PInf = Some PInf"
| "fadd MInf _ = Some MInf"
| "fadd _ MInf = Some MInf"

fun fmul :: "double \<Rightarrow> double \<Rightarrow> scalar" where
  "fmul (Fin x) (Fin y) = Some (rnd (x * y))"
| "fmul (Fin x) d = (if x = 0 then None else if 0 < x then Some d else Some (fneg d))"
| "fmul d (Fin y) = (if y = 0 then None else if 0 < y then Some d else Some (fneg d))"
| "fmul PInf d = Some d"
| "fmul MInf d = Some (fneg d)"

fun plus_scalar :: "scalar \<Rightarrow> scalar \<Rightarrow> scalar" where
  "plus_scalar (Some x) (Some y) = fadd x y"
| "plus_scalar _ _ = None"

fun minus_scalar :: "scalar \<Rightarrow> scalar \<Rightarrow> scalar" where
  "minus_scalar (Some x) (Some y) = fadd x (fneg y)"
| "minus_scalar _ _ = None"

text \<open>The product with a float constant \<open>k\<close>, given by its value.\<close>

fun times_scalar :: "real \<Rightarrow> scalar \<Rightarrow> scalar" where
  "times_scalar k (Some x) = fmul (Fin k) x"
| "times_scalar k None = None"

text \<open>Division by the float 2.\<close>

fun half_scalar :: "scalar \<Rightarrow> scalar" where
  "half_scalar (Some (Fin x)) = Some (rnd (x / 2))"
| "half_scalar (Some d) = Some d"
| "half_scalar None = None"

section \<open>Loading\<close>

text \<open>
  Line 19: \<^verbatim>\<open>df = pd.read_csv("Global_Cybersecurity_Threats_2015-2024.csv")\<close>.
  The parser is the library's: it splits the file into fields and decides for every
  column whether it is read as floats or as text. It is not part of the script and is not
  modelled; the file system records, for a path that holds a file, what the parser does
  with that file: it raises, or it returns a table. A path without a file raises.
\<close>

datatype parsed = Unreadable | Table dataframe

type_synonym filesystem = "string \<rightharpoonup> parsed"

definition csv_path :: string where
  "csv_path = ''Global_Cybersecurity_Threats_2015-2024.csv''"

definition read_csv :: "filesystem \<Rightarrow> string \<Rightarrow> error + dataframe" where
  "read_csv fs path =
     (case fs path of
        None \<Rightarrow> Inl FileNotFoundError
      | Some Unreadable \<Rightarrow> Inl ParserError
      | Some (Table t) \<Rightarrow> Inr t)"

section \<open>Cleaning: median imputation\<close>

text \<open>
  \<^verbatim>\<open>df[cols]\<close> with a list of names selects those columns, in the order listed, and
  raises \<^verbatim>\<open>KeyError\<close> when a name is not a column.
\<close>

fun getitem_cols :: "dataframe \<Rightarrow> string list \<Rightarrow> error + (string \<times> series) list" where
  "getitem_cols df [] = Inr []"
| "getitem_cols df (c # cs) =
     (case columns df c of
        None \<Rightarrow> Inl KeyError
      | Some s \<Rightarrow>
          (case getitem_cols df cs of
             Inl e \<Rightarrow> Inl e
           | Inr sub \<Rightarrow> Inr ((c, s) # sub)))"

text \<open>The floats of a column, missing cells skipped (\<^verbatim>\<open>skipna=True\<close>).\<close>

fun observed :: "series \<Rightarrow> double list" where
  "observed [] = []"
| "observed (Num x # cs) = x # observed cs"
| "observed (c # cs) = observed cs"

text \<open>
  The median of the observed floats, as the library computes it: the middle one of the
  sorted values, and when their number is even the float sum of the two middle ones
  divided by 2; \<^verbatim>\<open>NaN\<close> when there is no value. The sum is rounded, overflows to infinity,
  and is \<^verbatim>\<open>NaN\<close> for minus and plus infinity. (For an odd number of values some
  versions of the library add the middle value to itself and halve the sum, which is the
  middle value again unless its magnitude is \<open>2^1023\<close> or more.)
\<close>

definition nanmedian :: "double list \<Rightarrow> scalar" where
  "nanmedian vs =
     (let s = sort vs; n = length s in
      if n = 0 then None
      else if odd n then Some (s ! (n div 2))
      else half_scalar (plus_scalar (Some (s ! (n div 2 - 1))) (Some (s ! (n div 2)))))"

text \<open>\<^verbatim>\<open>Series.median()\<close>: a column holding text cannot be reduced and raises.\<close>

definition series_median :: "series \<Rightarrow> error + scalar" where
  "series_median s =
     (if list_ex is_Str s then Inl TypeError else Inr (nanmedian (observed s)))"

text \<open>\<^verbatim>\<open>DataFrame.median()\<close>: one median per column, labelled with the column name.\<close>

fun frame_median :: "(string \<times> series) list \<Rightarrow> error + (string \<times> scalar) list" where
  "frame_median [] = Inr []"
| "frame_median ((c, s) # sub) =
     (case series_median s of
        Inl e \<Rightarrow> Inl e
      | Inr m \<Rightarrow>
          (case frame_median sub of
             Inl e \<Rightarrow> Inl e
           | Inr ms \<Rightarrow> Inr ((c, m) # ms)))"

text \<open>
  \<^verbatim>\<open>fillna\<close> of one column with one value: every missing cell takes the value, every
  other cell is kept. Filling with \<^verbatim>\<open>NaN\<close> fills nothing.
\<close>

definition fillna_series :: "series \<Rightarrow> scalar \<Rightarrow> series" where
  "fillna_series s m =
     (case m of
        None \<Rightarrow> s
      | Some v \<Rightarrow> map (\<lambda>c. if c = NaN then Num v else c) s)"

text \<open>
  \<^verbatim>\<open>DataFrame.fillna(values)\<close> with one value per column label: each column is filled
  with the value stored under its own name, a column without a value is left alone.
\<close>

definition fillna :: "(string \<times> series) list \<Rightarrow> (string \<times> scalar) list \<Rightarrow> (string \<times> series) list" where
  "fillna sub values =
     map (\<lambda>(c, s). (c, case map_of values c of None \<Rightarrow> s | Some m \<Rightarrow> fillna_series s m)) sub"

text \<open>
  \<^verbatim>\<open>df[cols] = value\<close>: the i-th listed column is replaced by the i-th column of
  the value; nothing else of the table changes.
\<close>

definition setitem_cols :: "dataframe \<Rightarrow> string list \<Rightarrow> (string \<times> series) list \<Rightarrow> dataframe" where
  "setitem_cols df cols value =
     df\<lparr>columns := fold (\<lambda>(c, (_, s)) m. m(c \<mapsto> s)) (zip cols value) (columns df)\<rparr>"

text \<open>
  Line 63, for any list of column names:
  \<^verbatim>\<open>df[cols] = df[cols].fillna(df[cols].median())\<close>.
  A raise happens before the assignment, so that the table is then the one it was.
\<close>

definition clean_cols :: "dataframe \<Rightarrow> string list \<Rightarrow> error + dataframe" where
  "clean_cols df cols =
     (case getitem_cols df cols of
        Inl e \<Rightarrow> Inl e
      | Inr sub \<Rightarrow>
          (case frame_median sub of
             Inl e \<Rightarrow> Inl e
           | Inr med \<Rightarrow> Inr (setitem_cols df cols (fillna sub med))))"

definition clean :: "dataframe \<Rightarrow> error + dataframe" where
  "clean df = clean_cols df numeric_cols"

text \<open>
  The cleaning step done one column after the other, in the order of the list given:
  \<^verbatim>\<open>for c in cols: df[[c]] = df[[c]].fillna(df[[c]].median())\<close>.
  It is the comparison program for the claim that the order of the columns is irrelevant.
\<close>

fun clean_seq :: "dataframe \<Rightarrow> string list \<Rightarrow> error + dataframe" where
  "clean_seq df [] = Inr df"
| "clean_seq df (c # cs) =
     (case clean_cols df [c] of
        Inl e \<Rightarrow> Inl e
      | Inr df' \<Rightarrow> clean_seq df' cs)"

text \<open>Lines 19 and 63 in sequence; the displays in between only read the table.\<close>

definition load_and_clean :: "filesystem \<Rightarrow> error + dataframe" where
  "load_and_clean fs =
     (case read_csv fs csv_path of
        Inl e \<Rightarrow> Inl e
      | Inr df \<Rightarrow> clean df)"

section \<open>Outlier report\<close>

text \<open>
  What the script prints: a line of the outlier loop, kept as the column name and the
  count, or a piece of text.
\<close>

datatype printed = OutlierLine string nat | Text string

record state =
  table :: dataframe
  out :: "printed list"

text \<open>\<^verbatim>\<open>df[col]\<close> with one name.\<close>

definition getitem :: "dataframe \<Rightarrow> string \<Rightarrow> error + series" where
  "getitem df col = (case columns df col of None \<Rightarrow> Inl KeyError | Some s \<Rightarrow> Inr s)"

text \<open>
  The library's linear interpolation between two floats \<open>a\<close> and \<open>b\<close> with weight
  \<open>t\<close>: \<^verbatim>\<open>a + (b - a) * t\<close>, and \<^verbatim>\<open>b - (b - a) * (1 - t)\<close> when \<open>t\<close> is at least
  one half, every operation a float operation.
\<close>

definition lerp :: "double \<Rightarrow> double \<Rightarrow> real \<Rightarrow> scalar" where
  "lerp a b t =
     (let diff_b_a = minus_scalar (Some b) (Some a) in
      if 1 / 2 \<le> t then minus_scalar (Some b) (times_scalar (1 - t) diff_b_a)
      else plus_scalar (Some a) (times_scalar t diff_b_a))"

text \<open>
  The quantile of the observed floats with linear interpolation (the library's default):
  in the sorted values the position is \<open>q * (n - 1)\<close>, and the result is interpolated
  between the values at the positions below and above it. Without any value the result is
  \<^verbatim>\<open>NaN\<close>. The position and the weight are computed exactly here; for the two quantiles
  of the script they are multiples of a quarter, and the floats of the library hold them
  exactly for every column of fewer than \<open>2^51\<close> rows.
\<close>

definition nanquantile :: "double list \<Rightarrow> real \<Rightarrow> scalar" where
  "nanquantile vs q =
     (let s = sort vs; n = length s in
      if n = 0 then None
      else
        let h = q * real (n - 1);
            lo = nat \<lfloor>h\<rfloor>;
            hi = min (lo + 1) (n - 1)
        in lerp (s ! lo) (s ! hi) (h - real lo))"

definition quantile :: "series \<Rightarrow> real \<Rightarrow> error + scalar" where
  "quantile s q =
     (if list_ex is_Str s then Inl TypeError else Inr (nanquantile (observed s) q))"

text \<open>
  \<^verbatim>\<open>series < x\<close> and \<^verbatim>\<open>series > x\<close>: one boolean per row. A comparison with
  \<^verbatim>\<open>NaN\<close> on either side is false, so that against the scalar \<^verbatim>\<open>NaN\<close> every row is
  false; against a float, a text cell cannot be compared and raises.
\<close>

fun cell_lt :: "scalar \<Rightarrow> cell \<Rightarrow> bool" where
  "cell_lt (Some y) (Num v) = (v < y)"
| "cell_lt _ _ = False"

fun cell_gt :: "scalar \<Rightarrow> cell \<Rightarrow> bool" where
  "cell_gt (Some y) (Num v) = (v > y)"
| "cell_gt _ _ = False"

definition series_lt :: "series \<Rightarrow> scalar \<Rightarrow> error + bool list" where
  "series_lt s x =
     (if x \<noteq> None \<and> list_ex is_Str s then Inl TypeError else Inr (map (cell_lt x) s))"

definition series_gt :: "series \<Rightarrow> scalar \<Rightarrow> error + bool list" where
  "series_gt s x =
     (if x \<noteq> None \<and> list_ex is_Str s then Inl TypeError else Inr (map (cell_gt x) s))"

text \<open>\<^verbatim>\<open>a | b\<close> on two boolean columns, and \<^verbatim>\<open>.sum()\<close> of one.\<close>

definition mask_or :: "bool list \<Rightarrow> bool list \<Rightarrow> bool list" where
  "mask_or a b = map (\<lambda>(x, y). x \<or> y) (zip a b)"

definition mask_sum :: "bool list \<Rightarrow> nat" where
  "mask_sum m = sum_list (map (\<lambda>b. if b then 1 else 0) m)"

text \<open>Sequencing of steps that may raise.\<close>

definition and_then :: "error + 'a \<Rightarrow> ('a \<Rightarrow> error + 'b) \<Rightarrow> error + 'b" where
  "and_then r f = (case r of Inl e \<Rightarrow> Inl e | Inr x \<Rightarrow> f x)"

text \<open>
  Lines 71-74 without the final \<^verbatim>\<open>.sum()\<close>: the two quartiles, their distance, and
  the boolean column that marks the rows outside the two fences.
\<close>

definition outlier_mask :: "dataframe \<Rightarrow> string \<Rightarrow> error + bool list" where
  "outlier_mask df col =
     and_then (getitem df col) (\<lambda>s1.
     and_then (quantile s1 (25 / 100)) (\<lambda>Q1.
     and_then (getitem df col) (\<lambda>s2.
     and_then (quantile s2 (75 / 100)) (\<lambda>Q3.
     let IQR = minus_scalar Q3 Q1 in
     and_then (getitem df col) (\<lambda>s3.
     and_then (series_lt s3 (minus_scalar Q1 (times_scalar (15 / 10) IQR))) (\<lambda>below.
     and_then (getitem df col) (\<lambda>s4.
     and_then (series_gt s4 (plus_scalar Q3 (times_scalar (15 / 10) IQR))) (\<lambda>above.
     Inr (mask_or below above)))))))))"

text \<open>Line 74: \<^verbatim>\<open>outliers = (...).sum()\<close>.\<close>

definition outlier_count :: "dataframe \<Rightarrow> string \<Rightarrow> error + nat" where
  "outlier_count df col = and_then (outlier_mask df col) (\<lambda>m. Inr (mask_sum m))"

text \<open>
  Line 75: the count is printed; the table is handed on as it is. When lines 71-74 raise,
  the script stops in the state it has reached: what was printed stays printed.
\<close>

definition outlier_step :: "string \<Rightarrow> state \<Rightarrow> error \<times> state + state" where
  "outlier_step col st =
     (case outlier_count (table st) col of
        Inl e \<Rightarrow> Inl (e, st)
      | Inr outliers \<Rightarrow> Inr (st\<lparr>out := out st @ [OutlierLine col outliers]\<rparr>))"

text \<open>Line 70: \<^verbatim>\<open>for col in cols\<close>.\<close>

fun outlier_loop :: "string list \<Rightarrow> state \<Rightarrow> error \<times> state + state" where
  "outlier_loop [] st = Inr st"
| "outlier_loop (col # cols) st =
     (case outlier_step col st of
        Inl stopped \<Rightarrow> Inl stopped
      | Inr st' \<Rightarrow> outlier_loop cols st')"

definition outlier_report :: "state \<Rightarrow> error \<times> state + state" where
  "outlier_report st = outlier_loop numeric_cols st"

section \<open>Final conclusions\<close>

text \<open>Lines 212-219: the argument of the last \<^verbatim>\<open>print\<close>.\<close>

definition conclusions :: string where
  "conclusions =
     ''\<newline>1. Cybersecurity incidents have increased steadily over time, indicating expanding digital attack surfaces.'' @
     ''\<newline>2. Financial losses are highly skewed, with a small number of incidents causing extreme damage.'' @
     ''\<newline>3. Certain attack types consistently result in higher median financial losses.'' @
     ''\<newline>4. Financial loss is positively correlated with both the number of affected users and incident resolution time.'' @
     ''\<newline>5. Faster incident detection and response are associated with reduced financial impact.'' @
     ''\<newline>6. Extreme incidents (outliers) represent critical systemic risks and should not be excluded from analysis.'' @
     ''\<newline>''"

definition print_conclusions :: "state \<Rightarrow> state" where
  "print_conclusions st = st\<lparr>out := out st @ [Text conclusions]\<rparr>"

section \<open>Notions used by the properties\<close>

text \<open>A column that exists and holds no text: the medians and quartiles of it are defined.\<close>

definition numeric_col :: "dataframe \<Rightarrow> string \<Rightarrow> bool" where
  "numeric_col df c = (case columns df c of None \<Rightarrow> False | Some s \<Rightarrow> \<not> list_ex is_Str s)"

text \<open>A numeric column with at least one observed (non-missing) value.\<close>

definition has_observed :: "dataframe \<Rightarrow> string \<Rightarrow> bool" where
  "has_observed df c =
     (case columns df c of None \<Rightarrow> False | Some s \<Rightarrow> \<not> list_ex is_Str s \<and> list_ex is_Num s)"

text \<open>
  A column whose floats are all finite and of magnitude below \<open>2^1023\<close>: no float of it
  is an infinity, and no float of it added to itself overflows.
\<close>

definition moderate_cell :: "cell \<Rightarrow> bool" where
  "moderate_cell c =
     (case c of
        Num d \<Rightarrow> (case d of Fin x \<Rightarrow> \<bar>x\<bar> < 2 ^ 1023 | _ \<Rightarrow> False)
      | _ \<Rightarrow> True)"

definition moderate_col :: "dataframe \<Rightarrow> string \<Rightarrow> bool" where
  "moderate_col df c = (case columns df c of None \<Rightarrow> False | Some s \<Rightarrow> list_all moderate_cell s)"

text \<open>The number of missing cells of a column (\<^verbatim>\<open>isnull().sum()\<close>, line 52).\<close>

definition missing_count :: "series \<Rightarrow> nat" where
  "missing_count s = length (filter (\<lambda>c. c = NaN) s)"

text \<open>One column filled with its own median.\<close>

definition impute :: "series \<Rightarrow> series" where
  "impute s = fillna_series s (nanmedian (observed s))"

text \<open>What line 63 makes of one column of a table, or the error it raises.\<close>

definition cleaned_column :: "dataframe \<Rightarrow> string \<Rightarrow> error + series option" where
  "cleaned_column df c = (case clean df of Inl e \<Rightarrow> Inl e | Inr d \<Rightarrow> Inr (columns d c))"

text \<open>
  The columns the script reads by name, and a loaded table that has them all, with one
  cell per row and at least one row.
\<close>

definition required_cols :: "string list" where
  "required_cols = [''Attack Type'', ''Year'', ''Country''] @ numeric_cols"

definition has_required :: "dataframe \<Rightarrow> bool" where
  "has_required t \<longleftrightarrow>
     0 < nrows t \<and>
     (\<forall>c\<in>set required_cols. case columns t c of None \<Rightarrow> False | Some s \<Rightarrow> length s = nrows t)"



text \<open>
  The Tukey count in float arithmetic, stated on the rows of a column. With \<open>n\<close> sorted
  values, the quartile number \<open>j\<close> (1 or 3) lies at the position \<open>j * (n - 1) / 4\<close>:
  between the values \<open>a\<close> and \<open>b\<close> at the positions \<open>k\<close> and \<open>k + 1\<close>, where
  \<open>k\<close> is the quotient and \<open>r\<close> the remainder of \<open>j * (n - 1)\<close> by 4. It is
  \<open>a + (b - a) * r/4\<close> for a remainder below 2 and \<open>b - (b - a) * (1 - r/4)\<close>
  otherwise, in float operations. The fences are \<open>Q1 - 1.5 * IQR\<close> and
  \<open>Q3 + 1.5 * IQR\<close> with \<open>IQR = Q3 - Q1\<close>, in float operations; the count is the
  number of rows whose float is strictly below the first or strictly above the second.
\<close>

definition quartile_float :: "nat \<Rightarrow> double list \<Rightarrow> scalar" where
  "quartile_float j xs =
     (if xs = [] then None
      else
        let n = length xs;
            k = (j * (n - 1)) div 4;
            r = (j * (n - 1)) mod 4;
            a = Some (xs ! k);
            b = Some (xs ! (min (k + 1) (n - 1)))
        in if r < 2 then plus_scalar a (times_scalar (real r / 4) (minus_scalar b a))
           else minus_scalar b (times_scalar (1 - real r / 4) (minus_scalar b a)))"

definition lower_fence :: "series \<Rightarrow> scalar" where
  "lower_fence s =
     (let xs = sort (observed s); Q1 = quartile_float 1 xs; Q3 = quartile_float 3 xs
      in minus_scalar Q1 (times_scalar (3 / 2) (minus_scalar Q3 Q1)))"

definition upper_fence :: "series \<Rightarrow> scalar" where
  "upper_fence s =
     (let xs = sort (observed s); Q1 = quartile_float 1 xs; Q3 = quartile_float 3 xs
      in plus_scalar Q3 (times_scalar (3 / 2) (minus_scalar Q3 Q1)))"

definition fence_count :: "series \<Rightarrow> nat" where
  "fence_count s =
     card {r. r < length s \<and>
              (\<exists>v y. s ! r = Num v \<and>
                 (lower_fence s = Some y \<and> v < y \<or> upper_fence s = Some y \<and> y < v))}"

text \<open>The error that stops the outlier loop at a column that is absent or holds text.\<close>

definition first_error :: "dataframe \<Rightarrow> string \<Rightarrow> error" where
  "first_error df c = (case columns df c of None \<Rightarrow> KeyError | Some s \<Rightarrow> TypeError)"

text \<open>
  The lines that the outlier loop prints for a table, without the state around them; when
  it raises, the error and the lines printed before.
\<close>

fun outlier_lines :: "dataframe \<Rightarrow> string list \<Rightarrow> error \<times> printed list + printed list" where
  "outlier_lines df [] = Inr []"
| "outlier_lines df (c # cs) =
     (case outlier_count df c of
        Inl e \<Rightarrow> Inl (e, [])
      | Inr n \<Rightarrow>
          (case outlier_lines df cs of
             Inl (e, ls) \<Rightarrow> Inl (e, OutlierLine c n # ls)
           | Inr ls \<Rightarrow> Inr (OutlierLine c n # ls)))"

text \<open>Tables used as concrete inputs.\<close>

definition example_table :: dataframe where
  "example_table =
     \<lparr>nrows = 5,
      columns =
        [''Attack Type'' \<mapsto> [Str ''Phishing'', Str ''DDoS'', NaN, Str ''Phishing'', Str ''Malware''],
         ''Year'' \<mapsto> [Num (Fin 2015), Num (Fin 2016), Num (Fin 2017), Num (Fin 2018), Num (Fin 2019)],
         ''Country'' \<mapsto> [Str ''UK'', NaN, Str ''India'', Str ''China'', Str ''UK''],
         ''Financial Loss (in Million $)'' \<mapsto> [Num (Fin 10), NaN, Num (Fin 30), NaN, Num (Fin 50)],
         ''Number of Affected Users'' \<mapsto> [Num (Fin 7), Num (Fin 3), Num (Fin 1), Num (Fin 100), NaN],
         ''Incident Resolution Time (in Hours)'' \<mapsto>
            [Num (Fin 4), Num (Fin 8), Num (Fin 6), Num (Fin 2), Num (Fin 5)]]\<rparr>"

definition unobserved_table :: dataframe where
  "unobserved_table =
     \<lparr>nrows = 2,
      columns =
        [''Financial Loss (in Million $)'' \<mapsto> [Num (Fin 10), NaN],
         ''Number of Affected Users'' \<mapsto> [NaN, NaN],
         ''Incident Resolution Time (in Hours)'' \<mapsto> [Num (Fin 4), Num (Fin 8)]]\<rparr>"

definition empty_table :: dataframe where
  "empty_table =
     \<lparr>nrows = 0,
      columns =
        [''Financial Loss (in Million $)'' \<mapsto> [],
         ''Number of Affected Users'' \<mapsto> [],
         ''Incident Resolution Time (in Hours)'' \<mapsto> []]\<rparr>"

definition quartile_column :: series where
  "quartile_column = [Num (Fin 1), Num (Fin 2), Num (Fin 3), Num (Fin 4), Num (Fin 5), Num (Fin 100)]"

definition quartile_table :: dataframe where
  "quartile_table =
     \<lparr>nrows = 6,
      columns =
        [''Financial Loss (in Million $)'' \<mapsto> quartile_column,
         ''Number of Affected Users'' \<mapsto> quartile_column,
         ''Incident Resolution Time (in Hours)'' \<mapsto> quartile_column]\<rparr>"

text \<open>
  A column with both infinities and a missing cell, and a column with twice the float
  \<open>2^1023\<close> and a missing cell.
\<close>

definition infinite_table :: dataframe where
  "infinite_table =
     \<lparr>nrows = 3,
      columns =
        [''Financial Loss (in Million $)'' \<mapsto> [Num PInf, Num MInf, NaN],
         ''Number of Affected Users'' \<mapsto> [Num (Fin 1), Num (Fin 2), Num (Fin 3)],
         ''Incident Resolution Time (in Hours)'' \<mapsto> [Num (Fin 4), Num (Fin 8), Num (Fin 6)]]\<rparr>"

definition overflow_table :: dataframe where
  "overflow_table =
     \<lparr>nrows = 3,
      columns =
        [''Financial Loss (in Million $)'' \<mapsto> [Num (Fin (2 ^ 1023)), NaN, Num (Fin (2 ^ 1023))],
         ''Number of Affected Users'' \<mapsto> [Num (Fin 1), Num (Fin 2), Num (Fin 3)],
         ''Incident Resolution Time (in Hours)'' \<mapsto> [Num (Fin 4), Num (Fin 8), Num (Fin 6)]]\<rparr>"





text \<open>
  The table that the library returns for a file whose column of affected users holds the
  number 9223372036854775808 and an empty field: the number is beyond the 64-bit integers,
  and next to a missing value the library keeps such a column as text.
\<close>

definition big_integer_table :: dataframe where
  "big_integer_table =
     \<lparr>nrows = 2,
      columns =
        [''Attack Type'' \<mapsto> [Str ''Phishing'', Str ''DDoS''],
         ''Year'' \<mapsto> [Num (Fin 2015), Num (Fin 2016)],
         ''Country'' \<mapsto> [Str ''UK'', Str ''India''],
         ''Financial Loss (in Million $)'' \<mapsto> [Num (Fin 10), Num (Fin 30)],
         ''Number of Affected Users'' \<mapsto> [Str ''9223372036854775808'', NaN],
         ''Incident Resolution Time (in Hours)'' \<mapsto> [Num (Fin 4), Num (Fin 8)]]\<rparr>"

section \<open>Auxiliary facts about rounding\<close>

lemma bitlen_rec: "bitlen a = (if 0 < a then bitlen (a div 2) + 1 else 0)"
  unfolding bitlen_def by (subst compute_floorlog) (auto simp: nat_div_distrib)

lemma bitlen_unique:
  assumes "2 ^ k \<le> n" and "n < 2 ^ Suc k"
  shows "bitlen n = int k + 1"
proof -
  from assms(1) have pos: "0 < n" by (smt (verit) zero_less_power)
  from bitlen_bounds[OF pos] have lo: "2 ^ nat (bitlen n - 1) \<le> n" and hi: "n < 2 ^ nat (bitlen n)"
    by simp_all
  from pos have b1: "1 \<le> bitlen n" by (auto simp: bitlen_alt_def)
  have "(2::int) ^ nat (bitlen n - 1) < 2 ^ Suc k" using lo assms(2) by linarith
  then have "nat (bitlen n - 1) < Suc k"
    by (simp only: power_strict_increasing_iff one_less_numeral_iff semiring_norm)
  moreover have "(2::int) ^ k < 2 ^ nat (bitlen n)" using hi assms(1) by linarith
  then have "k < nat (bitlen n)"
    by (simp only: power_strict_increasing_iff one_less_numeral_iff semiring_norm)
  ultimately show ?thesis using b1 by linarith
qed

lemma pow2_pos: "0 < pow2 e"
  by (simp add: pow2_def)

lemma pow2_neg: "pow2 (- int j) = 1 / 2 ^ j"
  by (cases "j = 0") (simp_all add: pow2_def)

text \<open>\<open>ilog2\<close> is the exponent of the binade.\<close>

lemma ilog2_eq:
  assumes lo: "pow2 e \<le> \<bar>x\<bar>" and hi: "\<bar>x\<bar> < pow2 (e + 1)"
  shows "ilog2 x = e"
proof (cases "1 \<le> \<bar>x\<bar>")
  case True
  have e0: "0 \<le> e"
  proof (rule ccontr)
    assume "\<not> 0 \<le> e"
    then have "e + 1 \<le> 0" by simp
    then have "pow2 (e + 1) \<le> 1"
      by (cases "e + 1 = 0") (simp_all add: pow2_def field_simps)
    with hi True show False by simp
  qed
  define k where "k = nat e"
  from e0 have lo': "2 ^ k \<le> \<bar>x\<bar>" and hi': "\<bar>x\<bar> < 2 ^ Suc k"
    using lo hi by (simp_all add: pow2_def k_def nat_add_distrib)
  have "(2::int) ^ k \<le> \<lfloor>\<bar>x\<bar>\<rfloor>"
    using lo' by (simp add: le_floor_iff)
  moreover have "\<lfloor>\<bar>x\<bar>\<rfloor> < 2 ^ Suc k"
    using hi' by (simp add: floor_less_iff)
  ultimately have "bitlen \<lfloor>\<bar>x\<bar>\<rfloor> = int k + 1" by (rule bitlen_unique)
  with True e0 show ?thesis by (simp add: ilog2_def k_def)
next
  case False
  have xpos: "0 < \<bar>x\<bar>" using lo pow2_pos[of e] by linarith
  have e0: "e < 0"
  proof (rule ccontr)
    assume "\<not> e < 0"
    then have "1 \<le> pow2 e" by (simp add: pow2_def)
    with lo False show False by simp
  qed
  define j where "j = nat (- e) - 1"
  from e0 have e: "e = - int (Suc j)" by (simp add: j_def)
  have p1: "pow2 e = 1 / 2 ^ Suc j" unfolding e by (rule pow2_neg)
  have "e + 1 = - int j" unfolding e by simp
  then have p2: "pow2 (e + 1) = 1 / 2 ^ j" by (simp only: pow2_neg)
  let ?y = "1 / \<bar>x\<bar>"
  from lo xpos have up: "?y \<le> 2 ^ Suc j"
    unfolding p1 by (simp add: field_simps)
  from hi xpos have down: "2 ^ j < ?y"
    unfolding p2 by (simp add: field_simps)
  have "\<lceil>?y\<rceil> \<le> 2 ^ Suc j" using up by (simp add: ceiling_le_iff)
  then have a: "\<lceil>?y\<rceil> - 1 < 2 ^ Suc j" by simp
  have "(2::int) ^ j < \<lceil>?y\<rceil>" using down by (simp add: less_ceiling_iff)
  then have b: "(2::int) ^ j \<le> \<lceil>?y\<rceil> - 1" by simp
  from b a have "bitlen (\<lceil>?y\<rceil> - 1) = int j + 1" by (rule bitlen_unique)
  with False show ?thesis by (simp add: ilog2_def e)
qed

text \<open>Rounding within a known binade.\<close>

lemma rnd_binade:
  assumes "pow2 e \<le> \<bar>x\<bar>" and "\<bar>x\<bar> < pow2 (e + 1)"
  shows "rnd x =
     (let q = max (e - 52) (- 1074);
          y = of_int (round_half_even (x / pow2 q)) * pow2 q
      in if max_double < y then PInf else if y < - max_double then MInf else Fin y)"
proof -
  from assms(1) pow2_pos[of e] have "x \<noteq> 0" by auto
  then show ?thesis by (simp add: rnd_def ilog2_eq[OF assms])
qed

lemmas rnd_arith = pow2_def round_half_even_def max_double_def Let_def

lemmas rnd_eval = rnd_def ilog2_def bitlen_rec rnd_arith

section \<open>Auxiliary facts about the cleaning step\<close>

lemma getitem_cols_present:
  "\<forall>c\<in>set cs. columns df c \<noteq> None \<Longrightarrow>
     getitem_cols df cs = Inr (map (\<lambda>c. (c, the (columns df c))) cs)"
  by (induction cs) auto

lemma getitem_cols_absent:
  "getitem_cols df cs = Inr sub \<Longrightarrow> c \<in> set cs \<Longrightarrow> columns df c \<noteq> None"
proof (induction cs arbitrary: sub)
  case Nil
  then show ?case by simp
next
  case (Cons a cs)
  from Cons.prems(1) obtain s r where a: "columns df a = Some s" and r: "getitem_cols df cs = Inr r"
    by (auto split: option.splits sum.splits)
  show ?case
  proof (cases "c = a")
    case True
    with a show ?thesis by simp
  next
    case False
    with Cons.prems(2) have "c \<in> set cs" by simp
    with r show ?thesis by (rule Cons.IH)
  qed
qed

lemma getitem_cols_Inr:
  "getitem_cols df cs = Inr sub \<longleftrightarrow>
     (\<forall>c\<in>set cs. columns df c \<noteq> None) \<and> sub = map (\<lambda>c. (c, the (columns df c))) cs"
  using getitem_cols_present[of cs df] getitem_cols_absent[of df cs sub] by auto

lemma frame_median_numeric:
  "\<forall>p\<in>set sub. \<not> list_ex is_Str (snd p) \<Longrightarrow>
     frame_median sub = Inr (map (\<lambda>p. (fst p, nanmedian (observed (snd p)))) sub)"
  by (induction sub rule: frame_median.induct) (auto simp: series_median_def)

lemma frame_median_text:
  "frame_median sub = Inr med \<Longrightarrow> p \<in> set sub \<Longrightarrow> \<not> list_ex is_Str (snd p)"
proof (induction sub arbitrary: med rule: frame_median.induct)
  case 1
  then show ?case by simp
next
  case (2 c s sub)
  from "2.prems"(1) obtain ms where s: "\<not> list_ex is_Str s" and ms: "frame_median sub = Inr ms"
    by (auto simp: series_median_def split: sum.splits if_splits)
  show ?case
  proof (cases "p = (c, s)")
    case True
    with s show ?thesis by simp
  next
    case False
    with "2.prems"(2) have "p \<in> set sub" by simp
    with ms show ?thesis
      using "2.IH" s by (simp add: series_median_def)
  qed
qed

lemma map_of_keyed:
  "map_of (map (\<lambda>c. (c, g c)) cs) x = (if x \<in> set cs then Some (g x) else None)"
  by (induction cs) auto

lemma fold_setitem:
  "fold (\<lambda>(c, (_, s)) m. m(c \<mapsto> s)) (zip cs (map (\<lambda>c. (c, h c)) cs)) m =
     (\<lambda>x. if x \<in> set cs then Some (h x) else m x)"
  by (induction cs arbitrary: m) (auto simp: fun_eq_iff)

lemma sum_not_Inr: "(\<forall>x. r \<noteq> Inr x) \<Longrightarrow> \<exists>e. r = Inl e"
  by (cases r) auto

lemma clean_cols_Inr:
  assumes "\<forall>c\<in>set cs. numeric_col df c"
  shows "clean_cols df cs =
     Inr (df\<lparr>columns := (\<lambda>x. if x \<in> set cs then map_option impute (columns df x) else columns df x)\<rparr>)"
proof -
  let ?sub = "map (\<lambda>c. (c, the (columns df c))) cs"
  let ?med = "map (\<lambda>c. (c, nanmedian (observed (the (columns df c))))) cs"
  from assms have present: "\<forall>c\<in>set cs. columns df c \<noteq> None"
    by (auto simp: numeric_col_def split: option.splits)
  then have sub: "getitem_cols df cs = Inr ?sub"
    by (simp add: getitem_cols_Inr)
  from assms have "\<forall>p\<in>set ?sub. \<not> list_ex is_Str (snd p)"
    by (auto simp: numeric_col_def split: option.splits)
  then have med: "frame_median ?sub = Inr ?med"
    by (simp add: frame_median_numeric o_def)
  have fill: "fillna ?sub ?med = map (\<lambda>c. (c, impute (the (columns df c)))) cs"
    by (simp add: fillna_def map_of_keyed impute_def)
  have "(\<lambda>x. if x \<in> set cs then Some (impute (the (columns df x))) else columns df x) =
        (\<lambda>x. if x \<in> set cs then map_option impute (columns df x) else columns df x)"
    using present by (auto simp: fun_eq_iff)
  then show ?thesis
    by (simp add: clean_cols_def sub med fill setitem_cols_def fold_setitem)
qed

lemma clean_cols_Inl:
  assumes "\<not> (\<forall>c\<in>set cs. numeric_col df c)"
  shows "\<exists>e. clean_cols df cs = Inl e"
proof (rule sum_not_Inr, rule allI, rule notI)
  fix d assume "clean_cols df cs = Inr d"
  then obtain sub med where sub: "getitem_cols df cs = Inr sub" and med: "frame_median sub = Inr med"
    by (auto simp: clean_cols_def split: sum.splits)
  from sub have "\<forall>c\<in>set cs. columns df c \<noteq> None" and s: "sub = map (\<lambda>c. (c, the (columns df c))) cs"
    by (simp_all add: getitem_cols_Inr)
  moreover from med have "\<forall>p\<in>set sub. \<not> list_ex is_Str (snd p)"
    using frame_median_text by blast
  ultimately have "\<forall>c\<in>set cs. numeric_col df c"
    by (fastforce simp: numeric_col_def split: option.splits)
  with assms show False by simp
qed

lemma sort_eq_Nil: "sort vs = [] \<longleftrightarrow> vs = []"
  by (metis length_0_conv length_sort)

lemma observed_eq_Nil: "observed s = [] \<longleftrightarrow> \<not> list_ex is_Num s"
  by (induction s rule: observed.induct) auto

lemma impute_length: "length (impute s) = length s"
  by (simp add: impute_def fillna_series_def split: option.splits)

lemma impute_Str: "list_ex is_Str (impute s) \<longleftrightarrow> list_ex is_Str s"
  by (auto simp: impute_def fillna_series_def list_ex_iff split: option.splits)

lemma fill_without_NaN: "NaN \<notin> set s \<Longrightarrow> map (\<lambda>c. if c = NaN then Num v else c) s = s"
  by (induction s) auto

lemma impute_idem: "impute (impute s) = impute s"
proof (cases "nanmedian (observed s)")
  case None
  then show ?thesis by (simp add: impute_def fillna_series_def)
next
  case (Some v)
  then have eq: "impute s = map (\<lambda>c. if c = NaN then Num v else c) s"
    by (simp add: impute_def fillna_series_def)
  have "NaN \<notin> set (impute s)" unfolding eq by auto
  then show ?thesis
    by (simp add: impute_def[of "impute s"] fillna_series_def fill_without_NaN split: option.splits)
qed

lemma clean_seq_Inr:
  "\<forall>c\<in>set cs. numeric_col df c \<Longrightarrow> clean_seq df cs =
     Inr (df\<lparr>columns := (\<lambda>x. if x \<in> set cs then map_option impute (columns df x) else columns df x)\<rparr>)"
proof (induction cs arbitrary: df)
  case Nil
  then show ?case by simp
next
  case (Cons c cs)
  let ?d = "df\<lparr>columns := (\<lambda>x. if x \<in> set [c] then map_option impute (columns df x) else columns df x)\<rparr>"
  from Cons.prems have "\<forall>x\<in>set [c]. numeric_col df x" by simp
  then have step: "clean_cols df [c] = Inr ?d" by (rule clean_cols_Inr)
  have "\<forall>x\<in>set cs. numeric_col ?d x"
    using Cons.prems by (auto simp: numeric_col_def impute_Str split: option.splits)
  then have "clean_seq ?d cs =
     Inr (?d\<lparr>columns := (\<lambda>x. if x \<in> set cs then map_option impute (columns ?d x) else columns ?d x)\<rparr>)"
    by (rule Cons.IH)
  moreover have "(\<lambda>x. if x \<in> set cs then map_option impute (columns ?d x) else columns ?d x) =
     (\<lambda>x. if x \<in> set (c # cs) then map_option impute (columns df x) else columns df x)"
    by (auto simp: fun_eq_iff impute_idem option.map_comp o_def)
  ultimately show ?case by (simp add: step)
qed

lemma clean_seq_Inl:
  "\<not> (\<forall>c\<in>set cs. numeric_col df c) \<Longrightarrow> \<exists>e. clean_seq df cs = Inl e"
proof (induction cs arbitrary: df)
  case Nil
  then show ?case by simp
next
  case (Cons c cs)
  show ?case
  proof (cases "numeric_col df c")
    case False
    then have "\<not> (\<forall>x\<in>set [c]. numeric_col df x)" by simp
    then obtain e where "clean_cols df [c] = Inl e" using clean_cols_Inl by blast
    then show ?thesis by simp
  next
    case True
    let ?d = "df\<lparr>columns := (\<lambda>x. if x \<in> set [c] then map_option impute (columns df x) else columns df x)\<rparr>"
    from True have "\<forall>x\<in>set [c]. numeric_col df x" by simp
    then have step: "clean_cols df [c] = Inr ?d" by (rule clean_cols_Inr)
    from True Cons.prems obtain y where y: "y \<in> set cs" "\<not> numeric_col df y" by auto
    then have "\<not> numeric_col ?d y"
      by (auto simp: numeric_col_def impute_Str split: option.splits)
    with y have "\<not> (\<forall>x\<in>set cs. numeric_col ?d x)" by blast
    then obtain e where "clean_seq ?d cs = Inl e" using Cons.IH by blast
    then show ?thesis by (simp add: step)
  qed
qed

lemma missing_count_zero: "missing_count s = 0 \<longleftrightarrow> NaN \<notin> set s"
  by (auto simp: missing_count_def filter_empty_conv)

lemma impute_observed:
  assumes "nanmedian (observed s) = Some m"
  shows "missing_count (impute s) = 0"
    and "r < length s \<Longrightarrow> s ! r = NaN \<Longrightarrow> impute s ! r = Num m"
    and "r < length s \<Longrightarrow> s ! r \<noteq> NaN \<Longrightarrow> impute s ! r = s ! r"
  using assms by (auto simp: missing_count_zero impute_def fillna_series_def)

lemma impute_present: "r < length s \<Longrightarrow> s ! r \<noteq> NaN \<Longrightarrow> impute s ! r = s ! r"
  by (auto simp: impute_def fillna_series_def split: option.splits)

lemma impute_unobserved: "observed s = [] \<Longrightarrow> impute s = s"
  by (simp add: impute_def fillna_series_def nanmedian_def)

lemma observed_set: "set (observed s) = {d. Num d \<in> set s}"
  by (induction s rule: observed.induct) auto

lemma moderate_finite:
  assumes "list_all moderate_cell s" and "d \<in> set (observed s)"
  shows "\<exists>x. d = Fin x"
proof -
  from assms(2) have "Num d \<in> set s" by (simp add: observed_set)
  with assms(1) have "moderate_cell (Num d)" by (simp add: list_all_iff)
  then show ?thesis by (cases d) (simp_all add: moderate_cell_def)
qed

lemma half_plus_finite: "\<exists>m. half_scalar (plus_scalar (Some (Fin a)) (Some (Fin b))) = Some m"
  by (cases "rnd (a + b)") simp_all

lemma nanmedian_finite:
  assumes "vs \<noteq> []" and "\<forall>d\<in>set vs. \<exists>x. d = Fin x"
  shows "\<exists>m. nanmedian vs = Some m \<and>
     (odd (length vs) \<longrightarrow> m = sort vs ! (length vs div 2)) \<and>
     (even (length vs) \<longrightarrow>
        Some m = half_scalar (plus_scalar (Some (sort vs ! (length vs div 2 - 1)))
                                          (Some (sort vs ! (length vs div 2)))))"
proof (cases "odd (length vs)")
  case True
  with assms(1) show ?thesis by (simp add: nanmedian_def Let_def sort_eq_Nil)
next
  case False
  let ?n = "length vs"
  from assms(1) have n: "0 < ?n" by simp
  then have "?n div 2 - 1 < ?n" "?n div 2 < ?n" by arith+
  then have "?n div 2 - 1 < length (sort vs)" "?n div 2 < length (sort vs)" by simp_all
  then have "sort vs ! (?n div 2 - 1) \<in> set (sort vs)" "sort vs ! (?n div 2) \<in> set (sort vs)"
    by (simp_all only: nth_mem)
  then have "sort vs ! (?n div 2 - 1) \<in> set vs" "sort vs ! (?n div 2) \<in> set vs"
    by simp_all
  with assms(2) have "\<exists>a. sort vs ! (?n div 2 - 1) = Fin a" "\<exists>b. sort vs ! (?n div 2) = Fin b"
    by blast+
  then obtain a b where ab: "sort vs ! (?n div 2 - 1) = Fin a" "sort vs ! (?n div 2) = Fin b"
    by blast
  from half_plus_finite[of a b] obtain m where
    m: "half_scalar (plus_scalar (Some (Fin a)) (Some (Fin b))) = Some m" ..
  with False assms(1) ab show ?thesis by (simp add: nanmedian_def Let_def sort_eq_Nil)
qed

section \<open>Auxiliary facts about the outlier report\<close>

lemma mask_or_map: "mask_or (map f s) (map g s) = map (\<lambda>x. f x \<or> g x) s"
  by (induction s) (simp_all add: mask_or_def)

lemma mask_sum_map: "mask_sum (map p s) = length (filter p s)"
  by (induction s) (simp_all add: mask_sum_def)

lemma outside_fences:
  "cell_lt lo c \<or> cell_gt hi c \<longleftrightarrow>
     (\<exists>v y. c = Num v \<and> (lo = Some y \<and> v < y \<or> hi = Some y \<and> y < v))"
  by (cases c; cases lo; cases hi) auto

lemma quartile_position:
  "nat \<lfloor>real j / 4 * real m\<rfloor> = (j * m) div 4"
  "real j / 4 * real m - real ((j * m) div 4) = real ((j * m) mod 4) / 4"
proof -
  have "real j / 4 * real m = real (j * m) / real 4" by simp
  then have "\<lfloor>real j / 4 * real m\<rfloor> = int ((j * m) div 4)"
    by (simp only: floor_divide_of_nat_eq)
  then show "nat \<lfloor>real j / 4 * real m\<rfloor> = (j * m) div 4" by simp
  have "real (j * m) = real (4 * ((j * m) div 4) + (j * m) mod 4)" by simp
  then have "real (j * m) = 4 * real ((j * m) div 4) + real ((j * m) mod 4)"
    by (simp only: of_nat_add of_nat_mult of_nat_numeral)
  then show "real j / 4 * real m - real ((j * m) div 4) = real ((j * m) mod 4) / 4"
    by (simp add: field_simps)
qed

lemma nanquantile_alt:
  "nanquantile vs q =
     (if length vs = 0 then None
      else lerp (sort vs ! nat \<lfloor>q * real (length vs - 1)\<rfloor>)
             (sort vs ! min (nat \<lfloor>q * real (length vs - 1)\<rfloor> + 1) (length vs - 1))
             (q * real (length vs - 1) - real (nat \<lfloor>q * real (length vs - 1)\<rfloor>)))"
  unfolding nanquantile_def Let_def length_sort by (rule refl)

lemma nanquantile_quartile:
  "nanquantile vs (real j / 4) = quartile_float j (sort vs)"
proof (cases "vs = []")
  case True
  then show ?thesis by (simp add: nanquantile_def quartile_float_def)
next
  case False
  let ?m = "length vs - 1"
  let ?k = "(j * ?m) div 4" and ?r = "(j * ?m) mod 4"
  have "nanquantile vs (real j / 4) =
      lerp (sort vs ! ?k) (sort vs ! min (?k + 1) ?m) (real ?r / 4)"
    using False by (simp only: nanquantile_alt quartile_position length_0_conv if_False)
  moreover have "quartile_float j (sort vs) =
      lerp (sort vs ! ?k) (sort vs ! min (?k + 1) ?m) (real ?r / 4)"
  proof (cases "?r < 2")
    case True
    then have "\<not> 1 / 2 \<le> real ?r / 4" by simp
    with True False show ?thesis
      by (simp only: quartile_float_def lerp_def Let_def sort_eq_Nil length_sort if_False if_True)
  next
    case r: False
    then have "1 / 2 \<le> real ?r / 4" by simp
    with r False show ?thesis
      by (simp only: quartile_float_def lerp_def Let_def sort_eq_Nil length_sort if_False if_True)
  qed
  ultimately show ?thesis by simp
qed

lemma quantile_numeric:
  assumes "\<not> list_ex is_Str s"
  shows "quantile s (1 / 4) = Inr (quartile_float 1 (sort (observed s)))"
    and "quantile s (3 / 4) = Inr (quartile_float 3 (sort (observed s)))"
  using assms nanquantile_quartile[of "observed s" 1] nanquantile_quartile[of "observed s" 3]
  by (simp_all add: quantile_def)

lemma outlier_mask_numeric:
  assumes "columns df c = Some s" and "\<not> list_ex is_Str s"
  shows "outlier_mask df c =
     Inr (map (\<lambda>x. cell_lt (lower_fence s) x \<or> cell_gt (upper_fence s) x) s)"
  using assms
  by (simp add: outlier_mask_def and_then_def getitem_def quantile_numeric series_lt_def
      series_gt_def mask_or_map Let_def lower_fence_def upper_fence_def)

lemma outlier_count_numeric:
  assumes "columns df c = Some s" and "\<not> list_ex is_Str s"
  shows "outlier_count df c = Inr (fence_count s)"
  by (simp add: outlier_count_def outlier_mask_numeric[OF assms] and_then_def mask_sum_map
      outside_fences length_filter_conv_card fence_count_def)

lemma outlier_count_raises:
  assumes "\<not> numeric_col df c"
  shows "outlier_count df c = Inl (first_error df c)"
proof (cases "columns df c")
  case None
  then show ?thesis
    by (simp add: outlier_count_def outlier_mask_def and_then_def getitem_def first_error_def)
next
  case (Some s)
  with assms have "list_ex is_Str s" by (simp add: numeric_col_def)
  with Some show ?thesis
    by (simp add: outlier_count_def outlier_mask_def and_then_def getitem_def quantile_def
        first_error_def)
qed

lemma outlier_loop_lines:
  "outlier_loop cs st =
     (case outlier_lines (table st) cs of
        Inl (e, ls) \<Rightarrow> Inl (e, st\<lparr>out := out st @ ls\<rparr>)
      | Inr ls \<Rightarrow> Inr (st\<lparr>out := out st @ ls\<rparr>))"
proof (induction cs arbitrary: st)
  case Nil
  then show ?case by simp
next
  case (Cons c cs)
  show ?case
  proof (cases "outlier_count (table st) c")
    case (Inl e)
    then show ?thesis by (simp add: outlier_step_def)
  next
    case (Inr n)
    let ?st = "st\<lparr>out := out st @ [OutlierLine c n]\<rparr>"
    have "outlier_loop (c # cs) st = outlier_loop cs ?st"
      using Inr by (simp add: outlier_step_def)
    also have "\<dots> =
       (case outlier_lines (table ?st) cs of
          Inl (e, ls) \<Rightarrow> Inl (e, ?st\<lparr>out := out ?st @ ls\<rparr>)
        | Inr ls \<Rightarrow> Inr (?st\<lparr>out := out ?st @ ls\<rparr>))"
      by (rule Cons.IH)
    also have "\<dots> =
       (case outlier_lines (table st) (c # cs) of
          Inl (e, ls) \<Rightarrow> Inl (e, st\<lparr>out := out st @ ls\<rparr>)
        | Inr ls \<Rightarrow> Inr (st\<lparr>out := out st @ ls\<rparr>))"
      using Inr by (cases "outlier_lines (table st) cs") (auto split: prod.splits)
    finally show ?thesis .
  qed
qed

lemma outlier_lines_eq:
  "outlier_lines df cs =
     (case dropWhile (numeric_col df) cs of
        [] \<Rightarrow> Inr (map (\<lambda>c. OutlierLine c (fence_count (the (columns df c))))
                     (takeWhile (numeric_col df) cs))
      | c # _ \<Rightarrow> Inl (first_error df c,
                     map (\<lambda>c. OutlierLine c (fence_count (the (columns df c))))
                       (takeWhile (numeric_col df) cs)))"
proof (induction cs)
  case Nil
  then show ?case by simp
next
  case IH: (Cons c cs)
  show ?case
  proof (cases "numeric_col df c")
    case False
    then show ?thesis by (simp add: outlier_count_raises)
  next
    case True
    then obtain s where s: "columns df c = Some s" "\<not> list_ex is_Str s"
      by (auto simp: numeric_col_def split: option.splits)
    then have oc: "outlier_count df c = Inr (fence_count s)" by (rule outlier_count_numeric)
    from True have tw: "takeWhile (numeric_col df) (c # cs) = c # takeWhile (numeric_col df) cs"
      and dw: "dropWhile (numeric_col df) (c # cs) = dropWhile (numeric_col df) cs"
      by simp_all
    from s have col: "the (columns df c) = s" by simp
    show ?thesis
    proof (cases "dropWhile (numeric_col df) cs")
      case Nil
      show ?thesis
        unfolding tw dw outlier_lines.simps oc IH.IH Nil by (simp add: col)
    next
      case (Cons x xs)
      show ?thesis
        unfolding tw dw outlier_lines.simps oc IH.IH Cons by (simp add: col)
    qed
  qed
qed




lemma decimal_fences:
  "minus_scalar (Some (Fin (8219069319951156 / 2 ^ 52)))
     (times_scalar (3 / 2)
        (minus_scalar (Some (Fin (19 / 8))) (Some (Fin (8219069319951156 / 2 ^ 52))))) =
   Some (Fin (4503599627370498 / 2 ^ 52))"
  "plus_scalar (Some (Fin (19 / 8)))
     (times_scalar (3 / 2)
        (minus_scalar (Some (Fin (19 / 8))) (Some (Fin (8219069319951156 / 2 ^ 52))))) =
   Some (Fin (7205759403792793 / 2 ^ 51))"
  by (simp_all add: rnd_eval)


section \<open>Properties of the cleaning step\<close>

text \<open>
  C1, as stated, fails on two tables in which every target column has an observed
  value. In the first the loss column holds plus infinity, minus infinity and a missing
  cell: the float sum of the two middle values is \<^verbatim>\<open>NaN\<close>, line 63 returns the column as
  it was, and one cell is still missing. In the second the loss column holds the float
  \<open>2^1023\<close> twice and a missing cell: the float sum overflows, and the missing cell is
  filled with plus infinity, which is not the median \<open>2^1023\<close> of the observed values.
\<close>

theorem imputation_median_counterexample:
  "has_observed infinite_table ''Financial Loss (in Million $)'' \<and>
   has_observed infinite_table ''Number of Affected Users'' \<and>
   has_observed infinite_table ''Incident Resolution Time (in Hours)'' \<and>
   columns infinite_table ''Financial Loss (in Million $)'' = Some [Num PInf, Num MInf, NaN] \<and>
   cleaned_column infinite_table ''Financial Loss (in Million $)'' = Inr (Some [Num PInf, Num MInf, NaN]) \<and>
   missing_count [Num PInf, Num MInf, NaN] = 1 \<and>
   has_observed overflow_table ''Financial Loss (in Million $)'' \<and>
   has_observed overflow_table ''Number of Affected Users'' \<and>
   has_observed overflow_table ''Incident Resolution Time (in Hours)'' \<and>
   is_double (2 ^ 1023) \<and>
   columns overflow_table ''Financial Loss (in Million $)'' =
     Some [Num (Fin (2 ^ 1023)), NaN, Num (Fin (2 ^ 1023))] \<and>
   cleaned_column overflow_table ''Financial Loss (in Million $)'' =
     Inr (Some [Num (Fin (2 ^ 1023)), Num PInf, Num (Fin (2 ^ 1023))])"
proof -
  have inf_obs: "has_observed infinite_table ''Financial Loss (in Million $)''"
    "has_observed infinite_table ''Number of Affected Users''"
    "has_observed infinite_table ''Incident Resolution Time (in Hours)''"
    "columns infinite_table ''Financial Loss (in Million $)'' = Some [Num PInf, Num MInf, NaN]"
    by (simp_all add: has_observed_def infinite_table_def)
  have ovf_obs: "has_observed overflow_table ''Financial Loss (in Million $)''"
    "has_observed overflow_table ''Number of Affected Users''"
    "has_observed overflow_table ''Incident Resolution Time (in Hours)''"
    "columns overflow_table ''Financial Loss (in Million $)'' =
       Some [Num (Fin (2 ^ 1023)), NaN, Num (Fin (2 ^ 1023))]"
    by (simp_all add: has_observed_def overflow_table_def)
  have inf_run: "cleaned_column infinite_table ''Financial Loss (in Million $)'' =
      Inr (Some [Num PInf, Num MInf, NaN])"
    by (simp add: cleaned_column_def clean_def clean_cols_def numeric_cols_def infinite_table_def
        series_median_def nanmedian_def less_double_def fillna_def fillna_series_def setitem_cols_def)
  have miss: "missing_count [Num PInf, Num MInf, NaN] = 1"
    by (simp add: missing_count_def)
  have dbl: "is_double (2 ^ 1023)"
    by (simp add: is_double_def rnd_binade[where e=1023] rnd_arith)
  have "nanmedian [Fin (2 ^ 1023), Fin (2 ^ 1023)] = Some PInf"
    by (simp add: nanmedian_def rnd_binade[where e=1024] rnd_arith)
  then have ovf_run: "cleaned_column overflow_table ''Financial Loss (in Million $)'' =
      Inr (Some [Num (Fin (2 ^ 1023)), Num PInf, Num (Fin (2 ^ 1023))])"
    by (simp add: cleaned_column_def clean_def clean_cols_def numeric_cols_def overflow_table_def
        series_median_def fillna_def fillna_series_def setitem_cols_def
        nanmedian_def[of "[Fin 1, Fin 2, Fin 3]"] nanmedian_def[of "[Fin 4, Fin 8, Fin 6]"] less_double_def)
  from inf_obs ovf_obs inf_run miss dbl ovf_run show ?thesis by simp
qed

text \<open>
  C1, amended. When each of the three target columns is numeric, has at least one
  observed value, and holds only finite floats of magnitude below \<open>2^1023\<close>, line 63
  completes, and in the resulting table each of the three columns has the length it had
  and holds no missing cell. Every cell that was missing holds the float median \<open>m\<close> of
  the values observed in that column before the step: with \<open>xs\<close> the observed values in
  ascending order, \<open>m\<close> is the middle one when their number is odd, and the float sum of
  the two middle ones divided by 2 when it is even.
\<close>

theorem imputation_fills_with_float_median:
  assumes "\<forall>c\<in>set numeric_cols. has_observed df c \<and> moderate_col df c"
  shows "\<exists>df'. clean df = Inr df' \<and>
     (\<forall>c\<in>set numeric_cols. \<exists>s s' xs m.
         columns df c = Some s \<and> columns df' c = Some s' \<and>
         sorted xs \<and> mset xs = mset (observed s) \<and>
         (odd (length xs) \<longrightarrow> m = xs ! (length xs div 2)) \<and>
         (even (length xs) \<longrightarrow>
            Some m = half_scalar (plus_scalar (Some (xs ! (length xs div 2 - 1)))
                                              (Some (xs ! (length xs div 2))))) \<and>
         length s' = length s \<and> missing_count s' = 0 \<and>
         (\<forall>r<length s. s ! r = NaN \<longrightarrow> s' ! r = Num m))"
proof -
  let ?d = "df\<lparr>columns := (\<lambda>x. if x \<in> set numeric_cols then map_option impute (columns df x) else columns df x)\<rparr>"
  from assms have "\<forall>c\<in>set numeric_cols. numeric_col df c"
    by (auto simp: has_observed_def numeric_col_def split: option.splits)
  then have run: "clean df = Inr ?d"
    unfolding clean_def by (rule clean_cols_Inr)
  have "\<exists>s s' xs m. columns df c = Some s \<and> columns ?d c = Some s' \<and>
         sorted xs \<and> mset xs = mset (observed s) \<and>
         (odd (length xs) \<longrightarrow> m = xs ! (length xs div 2)) \<and>
         (even (length xs) \<longrightarrow>
            Some m = half_scalar (plus_scalar (Some (xs ! (length xs div 2 - 1)))
                                              (Some (xs ! (length xs div 2))))) \<and>
         length s' = length s \<and> missing_count s' = 0 \<and>
         (\<forall>r<length s. s ! r = NaN \<longrightarrow> s' ! r = Num m)" if c: "c \<in> set numeric_cols" for c
  proof -
    from assms c have "has_observed df c" and "moderate_col df c" by blast+
    then obtain s where s: "columns df c = Some s" and obs: "list_ex is_Num s"
      and mod: "list_all moderate_cell s"
      by (auto simp: has_observed_def moderate_col_def split: option.splits)
    let ?vs = "observed s"
    from obs have ne: "?vs \<noteq> []" by (simp add: observed_eq_Nil)
    from mod have fin: "\<forall>d\<in>set ?vs. \<exists>x. d = Fin x"
      using moderate_finite by blast
    from nanmedian_finite[OF ne fin] obtain m where m: "nanmedian ?vs = Some m"
      and odd: "odd (length ?vs) \<longrightarrow> m = sort ?vs ! (length ?vs div 2)"
      and even: "even (length ?vs) \<longrightarrow>
        Some m = half_scalar (plus_scalar (Some (sort ?vs ! (length ?vs div 2 - 1)))
                                          (Some (sort ?vs ! (length ?vs div 2))))"
      by blast
    from c s have d: "columns ?d c = Some (impute s)" by simp
    have "sorted (sort ?vs)" "mset (sort ?vs) = mset ?vs" "length (sort ?vs) = length ?vs"
      by simp_all
    with s d m odd even show ?thesis
      using impute_observed[OF m] by (intro exI[of _ s] exI[of _ "impute s"] exI[of _ "sort ?vs"] exI[of _ m])
        (simp add: impute_length)
  qed
  with run show ?thesis by blast
qed

theorem imputation_fills_with_float_median_witness:
  "has_observed example_table ''Financial Loss (in Million $)'' \<and>
   moderate_col example_table ''Financial Loss (in Million $)'' \<and>
   has_observed example_table ''Number of Affected Users'' \<and>
   moderate_col example_table ''Number of Affected Users'' \<and>
   has_observed example_table ''Incident Resolution Time (in Hours)'' \<and>
   moderate_col example_table ''Incident Resolution Time (in Hours)'' \<and>
   (\<exists>df'. clean example_table = Inr df' \<and>
     (\<forall>c\<in>set numeric_cols. \<exists>s s' xs m.
         columns example_table c = Some s \<and> columns df' c = Some s' \<and>
         sorted xs \<and> mset xs = mset (observed s) \<and>
         (odd (length xs) \<longrightarrow> m = xs ! (length xs div 2)) \<and>
         (even (length xs) \<longrightarrow>
            Some m = half_scalar (plus_scalar (Some (xs ! (length xs div 2 - 1)))
                                              (Some (xs ! (length xs div 2))))) \<and>
         length s' = length s \<and> missing_count s' = 0 \<and>
         (\<forall>r<length s. s ! r = NaN \<longrightarrow> s' ! r = Num m)))"
proof -
  have h1: "has_observed example_table ''Financial Loss (in Million $)''"
    and h2: "has_observed example_table ''Number of Affected Users''"
    and h3: "has_observed example_table ''Incident Resolution Time (in Hours)''"
    by (simp_all add: has_observed_def example_table_def)
  have m1: "moderate_col example_table ''Financial Loss (in Million $)''"
    and m2: "moderate_col example_table ''Number of Affected Users''"
    and m3: "moderate_col example_table ''Incident Resolution Time (in Hours)''"
    by (simp_all add: moderate_col_def moderate_cell_def example_table_def)
  from h1 h2 h3 m1 m2 m3
  have h: "\<forall>c\<in>set numeric_cols. has_observed example_table c \<and> moderate_col example_table c"
    by (simp add: numeric_cols_def)
  from imputation_fills_with_float_median[OF h] h1 h2 h3 m1 m2 m3 show ?thesis by blast
qed

text \<open>
  C2. When line 63 completes, the number of rows is the same, every column other than
  the three target columns is the column it was (its missing cells included), and in each
  target column every cell that was not missing is the cell it was.
\<close>

theorem imputation_frame:
  assumes "clean df = Inr df'"
  shows "nrows df' = nrows df \<and>
     (\<forall>c. c \<notin> set numeric_cols \<longrightarrow> columns df' c = columns df c) \<and>
     (\<forall>c\<in>set numeric_cols. \<exists>s s'.
         columns df c = Some s \<and> columns df' c = Some s' \<and> length s' = length s \<and>
         (\<forall>r<length s. s ! r \<noteq> NaN \<longrightarrow> s' ! r = s ! r))"
proof -
  let ?d = "df\<lparr>columns := (\<lambda>x. if x \<in> set numeric_cols then map_option impute (columns df x) else columns df x)\<rparr>"
  have num: "\<forall>c\<in>set numeric_cols. numeric_col df c"
  proof (rule ccontr)
    assume "\<not> (\<forall>c\<in>set numeric_cols. numeric_col df c)"
    then obtain e where "clean df = Inl e"
      unfolding clean_def using clean_cols_Inl by blast
    with assms show False by simp
  qed
  then have "clean df = Inr ?d"
    unfolding clean_def by (rule clean_cols_Inr)
  with assms have d: "df' = ?d" by simp
  have "\<exists>s s'. columns df c = Some s \<and> columns ?d c = Some s' \<and> length s' = length s \<and>
         (\<forall>r<length s. s ! r \<noteq> NaN \<longrightarrow> s' ! r = s ! r)" if c: "c \<in> set numeric_cols" for c
  proof -
    from num c obtain s where s: "columns df c = Some s"
      by (auto simp: numeric_col_def split: option.splits)
    with c have "columns ?d c = Some (impute s)" by simp
    with s show ?thesis by (simp add: impute_length impute_present)
  qed
  then show ?thesis unfolding d by simp
qed

theorem imputation_frame_witness:
  "\<exists>d. clean example_table = Inr d \<and>
     nrows d = nrows example_table \<and>
     (\<forall>c. c \<notin> set numeric_cols \<longrightarrow> columns d c = columns example_table c) \<and>
     (\<forall>c\<in>set numeric_cols. \<exists>s s'.
         columns example_table c = Some s \<and> columns d c = Some s' \<and> length s' = length s \<and>
         (\<forall>r<length s. s ! r \<noteq> NaN \<longrightarrow> s' ! r = s ! r))"
proof -
  have "\<forall>c\<in>set numeric_cols. numeric_col example_table c"
    by (simp add: numeric_cols_def numeric_col_def example_table_def)
  then have "\<exists>d. clean example_table = Inr d"
    unfolding clean_def by (simp add: clean_cols_Inr)
  then obtain d where d: "clean example_table = Inr d" ..
  from imputation_frame[OF d] d show ?thesis by blast
qed

text \<open>
  C6. A table in which one of the target columns reads 10, missing, 30, missing, 50
  (the other two target columns being present and free of text, so that line 63 does
  not raise) has, after line 63, the same column with both missing cells replaced by 30,
  the median of 10, 30 and 50.
\<close>

theorem imputation_scenario:
  assumes "c \<in> set numeric_cols"
    and "columns df c = Some [Num (Fin 10), NaN, Num (Fin 30), NaN, Num (Fin 50)]"
    and "\<forall>x\<in>set numeric_cols. numeric_col df x"
  shows "\<exists>df'. clean df = Inr df' \<and>
     columns df' c = Some [Num (Fin 10), Num (Fin 30), Num (Fin 30), Num (Fin 30), Num (Fin 50)]"
proof -
  let ?d = "df\<lparr>columns := (\<lambda>x. if x \<in> set numeric_cols then map_option impute (columns df x) else columns df x)\<rparr>"
  from assms(3) have "clean df = Inr ?d"
    unfolding clean_def by (rule clean_cols_Inr)
  moreover have "impute [Num (Fin 10), NaN, Num (Fin 30), NaN, Num (Fin 50)] =
      [Num (Fin 10), Num (Fin 30), Num (Fin 30), Num (Fin 30), Num (Fin 50)]"
    by (simp add: impute_def nanmedian_def fillna_series_def less_double_def)
  ultimately show ?thesis using assms(1,2) by simp
qed

theorem imputation_scenario_witness:
  "''Financial Loss (in Million $)'' \<in> set numeric_cols \<and>
   columns example_table ''Financial Loss (in Million $)'' =
     Some [Num (Fin 10), NaN, Num (Fin 30), NaN, Num (Fin 50)] \<and>
   numeric_col example_table ''Financial Loss (in Million $)'' \<and>
   numeric_col example_table ''Number of Affected Users'' \<and>
   numeric_col example_table ''Incident Resolution Time (in Hours)'' \<and>
   (\<exists>df'. clean example_table = Inr df' \<and>
      columns df' ''Financial Loss (in Million $)'' =
        Some [Num (Fin 10), Num (Fin 30), Num (Fin 30), Num (Fin 30), Num (Fin 50)])"
proof -
  have h1: "''Financial Loss (in Million $)'' \<in> set numeric_cols"
    by (simp add: numeric_cols_def)
  have h2: "columns example_table ''Financial Loss (in Million $)'' =
      Some [Num (Fin 10), NaN, Num (Fin 30), NaN, Num (Fin 50)]"
    by (simp add: example_table_def)
  have n1: "numeric_col example_table ''Financial Loss (in Million $)''"
    and n2: "numeric_col example_table ''Number of Affected Users''"
    and n3: "numeric_col example_table ''Incident Resolution Time (in Hours)''"
    by (simp_all add: numeric_col_def example_table_def)
  then have h3: "\<forall>x\<in>set numeric_cols. numeric_col example_table x"
    by (simp add: numeric_cols_def)
  from imputation_scenario[OF h1 h2 h3] h1 h2 n1 n2 n3 show ?thesis by blast
qed

text \<open>
  C7, as stated, fails on a file that has the required columns and two rows, and whose
  column of affected users holds the number 9223372036854775808 and an empty field: the
  library reads that column as text, and line 63 raises.
\<close>

theorem load_and_clean_counterexample:
  "has_required big_integer_table \<and>
   read_csv [csv_path \<mapsto> Table big_integer_table] csv_path = Inr big_integer_table \<and>
   load_and_clean [csv_path \<mapsto> Table big_integer_table] = Inl TypeError"
  by (simp add: has_required_def required_cols_def numeric_cols_def big_integer_table_def
      load_and_clean_def read_csv_def clean_def clean_cols_def series_median_def)

text \<open>
  C7, amended. For a file under the fixed path that the library parses into a table,
  loading and cleaning in sequence return a table exactly when each of the three target
  columns is a column of the parsed table and holds no text; otherwise line 63 raises.
  When they return, the cleaned table has as many rows as the loaded one, and every
  column has as many cells as before.
\<close>

theorem load_and_clean_returns:
  assumes "fs csv_path = Some (Table t)"
  shows "((\<exists>d. load_and_clean fs = Inr d) \<longleftrightarrow> (\<forall>c\<in>set numeric_cols. numeric_col t c)) \<and>
     (\<forall>d. load_and_clean fs = Inr d \<longrightarrow>
        nrows d = nrows t \<and>
        (\<forall>c. map_option length (columns d c) = map_option length (columns t c)))"
proof -
  let ?d = "t\<lparr>columns := (\<lambda>x. if x \<in> set numeric_cols then map_option impute (columns t x) else columns t x)\<rparr>"
  from assms have load: "load_and_clean fs = clean t"
    by (simp add: load_and_clean_def read_csv_def)
  show ?thesis
  proof (cases "\<forall>c\<in>set numeric_cols. numeric_col t c")
    case True
    then have "clean t = Inr ?d"
      unfolding clean_def by (rule clean_cols_Inr)
    moreover have "\<forall>c. map_option length (columns ?d c) = map_option length (columns t c)"
      by (simp add: option.map_comp o_def impute_length)
    ultimately show ?thesis using True load by simp
  next
    case False
    then obtain e where "clean t = Inl e"
      unfolding clean_def using clean_cols_Inl by blast
    with False load show ?thesis by simp
  qed
qed

theorem load_and_clean_returns_witness:
  "[csv_path \<mapsto> Table example_table] csv_path = Some (Table example_table) \<and>
   numeric_col example_table ''Financial Loss (in Million $)'' \<and>
   numeric_col example_table ''Number of Affected Users'' \<and>
   numeric_col example_table ''Incident Resolution Time (in Hours)'' \<and>
   (\<exists>d. load_and_clean [csv_path \<mapsto> Table example_table] = Inr d \<and>
      nrows d = nrows example_table \<and>
      (\<forall>c. map_option length (columns d c) = map_option length (columns example_table c)))"
proof -
  have h: "[csv_path \<mapsto> Table example_table] csv_path = Some (Table example_table)" by simp
  have n1: "numeric_col example_table ''Financial Loss (in Million $)''"
    and n2: "numeric_col example_table ''Number of Affected Users''"
    and n3: "numeric_col example_table ''Incident Resolution Time (in Hours)''"
    by (simp_all add: numeric_col_def example_table_def)
  then have n: "\<forall>c\<in>set numeric_cols. numeric_col example_table c"
    by (simp add: numeric_cols_def)
  from load_and_clean_returns[of "[csv_path \<mapsto> Table example_table]" example_table, OF h] n
  have "\<exists>d. load_and_clean [csv_path \<mapsto> Table example_table] = Inr d \<and>
      nrows d = nrows example_table \<and>
      (\<forall>c. map_option length (columns d c) = map_option length (columns example_table c))"
    by blast
  with h n1 n2 n3 show ?thesis by blast
qed

text \<open>
  C8. For every listing \<open>cs\<close> of the three target columns in some order, cleaning the
  columns one after the other in that order, cleaning them at once in that order, and
  line 63 as written produce the same table, and one of them raises exactly when the
  others do.
\<close>

theorem imputation_order_irrelevant:
  assumes "mset cs = mset numeric_cols"
  shows "(clean_seq df cs = Inr d \<longleftrightarrow> clean df = Inr d) \<and>
         (clean_cols df cs = Inr d \<longleftrightarrow> clean df = Inr d)"
proof -
  from assms have eq: "set cs = set numeric_cols" by (rule mset_eq_setD)
  show ?thesis
  proof (cases "\<forall>c\<in>set numeric_cols. numeric_col df c")
    case True
    then have "\<forall>c\<in>set cs. numeric_col df c" by (simp add: eq)
    then show ?thesis
      using True by (simp add: clean_seq_Inr clean_cols_Inr clean_def eq)
  next
    case False
    then have "\<not> (\<forall>c\<in>set cs. numeric_col df c)" by (simp add: eq)
    then obtain e1 e2 where "clean_seq df cs = Inl e1" "clean_cols df cs = Inl e2"
      using clean_seq_Inl clean_cols_Inl by blast
    moreover from False obtain e3 where "clean df = Inl e3"
      unfolding clean_def using clean_cols_Inl by blast
    ultimately show ?thesis by simp
  qed
qed

theorem imputation_order_irrelevant_witness:
  "mset [''Incident Resolution Time (in Hours)'', ''Financial Loss (in Million $)'',
         ''Number of Affected Users''] = mset numeric_cols \<and>
   (\<exists>d. clean example_table = Inr d \<and>
      clean_seq example_table [''Incident Resolution Time (in Hours)'',
         ''Financial Loss (in Million $)'', ''Number of Affected Users''] = Inr d \<and>
      clean_cols example_table [''Incident Resolution Time (in Hours)'',
         ''Financial Loss (in Million $)'', ''Number of Affected Users''] = Inr d)"
proof -
  have h: "mset [''Incident Resolution Time (in Hours)'', ''Financial Loss (in Million $)'',
         ''Number of Affected Users''] = mset numeric_cols"
    by (simp add: numeric_cols_def)
  have "\<exists>d. clean example_table = Inr d"
    by (simp add: clean_def clean_cols_def numeric_cols_def example_table_def series_median_def)
  then obtain d where d: "clean example_table = Inr d" ..
  from imputation_order_irrelevant[OF h, of example_table d] d h show ?thesis by blast
qed

text \<open>
  C10, as stated, at the table without rows: the column has no observed value, line 63
  returns the table as it was, and the column holds no missing cell, so the invariant
  holds there.
\<close>

theorem unobserved_column_counterexample:
  "''Number of Affected Users'' \<in> set numeric_cols \<and>
   columns empty_table ''Number of Affected Users'' = Some [] \<and>
   observed [] = [] \<and>
   clean empty_table = Inr empty_table \<and>
   missing_count [] = 0"
  by (simp add: numeric_cols_def empty_table_def clean_def clean_cols_def series_median_def
      nanmedian_def fillna_def fillna_series_def setitem_cols_def missing_count_def fun_eq_iff)

text \<open>
  C10, amended. When a target column has at least one row and no observed value (the
  three target columns being present and free of text), line 63 completes and leaves the
  column as it was: every cell of it is still missing, and the number of missing cells is
  the number of rows, which is positive.
\<close>

theorem unobserved_column_stays_missing:
  assumes "c \<in> set numeric_cols"
    and "\<forall>x\<in>set numeric_cols. numeric_col df x"
    and "columns df c = Some s"
    and "s \<noteq> []"
    and "observed s = []"
  shows "\<exists>df'. clean df = Inr df' \<and> columns df' c = Some s \<and>
     (\<forall>r<length s. s ! r = NaN) \<and> missing_count s = length s \<and> 0 < missing_count s"
proof -
  let ?d = "df\<lparr>columns := (\<lambda>x. if x \<in> set numeric_cols then map_option impute (columns df x) else columns df x)\<rparr>"
  from assms(2) have run: "clean df = Inr ?d"
    unfolding clean_def by (rule clean_cols_Inr)
  from assms(1,3,5) have kept: "columns ?d c = Some s"
    by (simp add: impute_unobserved)
  from assms(1,2,3) have "\<not> list_ex is_Str s"
    by (auto simp: numeric_col_def)
  moreover from assms(5) have "\<not> list_ex is_Num s"
    by (simp add: observed_eq_Nil)
  ultimately have all: "\<forall>x\<in>set s. x = NaN"
    by (metis cell.exhaust_disc list_ex_iff)
  then have "filter (\<lambda>c. c = NaN) s = s" by (simp add: filter_id_conv)
  then have "missing_count s = length s" by (simp add: missing_count_def)
  with run kept all assms(4) show ?thesis by auto
qed

theorem unobserved_column_stays_missing_witness:
  "\<exists>df'. clean unobserved_table = Inr df' \<and>
     columns df' ''Number of Affected Users'' = Some [NaN, NaN] \<and>
     (\<forall>r<length [NaN, NaN]. [NaN, NaN] ! r = NaN) \<and>
     missing_count [NaN, NaN] = length [NaN, NaN] \<and> 0 < missing_count [NaN, NaN]"
proof -
  have h1: "''Number of Affected Users'' \<in> set numeric_cols"
    by (simp add: numeric_cols_def)
  have h2: "\<forall>x\<in>set numeric_cols. numeric_col unobserved_table x"
    by (simp add: numeric_cols_def numeric_col_def unobserved_table_def)
  have h3: "columns unobserved_table ''Number of Affected Users'' = Some [NaN, NaN]"
    by (simp add: unobserved_table_def)
  have h4: "[NaN, NaN] \<noteq> []" by simp
  have h5: "observed [NaN, NaN] = []" by simp
  from unobserved_column_stays_missing[OF h1 h2 h3 h4 h5] show ?thesis .
qed

section \<open>Properties of the outlier report\<close>

text \<open>
  C3. When the outlier loop completes, it has only appended lines to the output and the
  table is the one it started from; run again on the resulting state it completes again,
  appends the very same lines (the same count for every column), and the table is still
  the one of the start.
\<close>

theorem outlier_report_pure_read:
  assumes "outlier_report st = Inr st1"
  shows "\<exists>lines st2. out st1 = out st @ lines \<and> table st1 = table st \<and>
     outlier_report st1 = Inr st2 \<and> out st2 = out st1 @ lines \<and> table st2 = table st"
proof -
  from assms obtain ls where ls: "outlier_lines (table st) numeric_cols = Inr ls"
    and st1: "st1 = st\<lparr>out := out st @ ls\<rparr>"
    unfolding outlier_report_def outlier_loop_lines[of numeric_cols st]
    by (cases "outlier_lines (table st) numeric_cols") (auto split: prod.splits)
  have "outlier_report st1 = Inr (st1\<lparr>out := out st1 @ ls\<rparr>)"
    unfolding outlier_report_def outlier_loop_lines[of numeric_cols st1]
    using ls by (simp add: st1)
  then show ?thesis using st1 by simp
qed

theorem outlier_report_pure_read_witness:
  "\<exists>st1. outlier_report \<lparr>table = quartile_table, out = []\<rparr> = Inr st1 \<and>
     (\<exists>lines st2. out st1 = out \<lparr>table = quartile_table, out = []\<rparr> @ lines \<and>
        table st1 = table \<lparr>table = quartile_table, out = []\<rparr> \<and>
        outlier_report st1 = Inr st2 \<and> out st2 = out st1 @ lines \<and>
        table st2 = table \<lparr>table = quartile_table, out = []\<rparr>)"
proof -
  have "\<forall>c\<in>set numeric_cols. numeric_col quartile_table c"
    by (simp add: numeric_cols_def numeric_col_def quartile_table_def quartile_column_def)
  then have "dropWhile (numeric_col quartile_table) numeric_cols = []"
    by simp
  then have "\<exists>ls. outlier_lines quartile_table numeric_cols = Inr ls"
    unfolding outlier_lines_eq by (simp only: list.case) blast
  then have "\<exists>st1. outlier_report \<lparr>table = quartile_table, out = []\<rparr> = Inr st1"
    unfolding outlier_report_def outlier_loop_lines by auto
  then obtain st1 where r: "outlier_report \<lparr>table = quartile_table, out = []\<rparr> = Inr st1" ..
  from outlier_report_pure_read[OF r] r show ?thesis by blast
qed




text \<open>
  C5. On the column 1, 2, 3, 4, 5, 100 the quartiles are 2.25 and 4.75, their distance is
  2.5, the upper fence is 8.5, and the rows marked as outliers are exactly the last one,
  the row with 100: the count is 1.
\<close>

theorem quartile_boundary_check:
  "quantile [Num (Fin 1), Num (Fin 2), Num (Fin 3), Num (Fin 4), Num (Fin 5), Num (Fin 100)] (25 / 100) =
     Inr (Some (Fin (225 / 100))) \<and>
   quantile [Num (Fin 1), Num (Fin 2), Num (Fin 3), Num (Fin 4), Num (Fin 5), Num (Fin 100)] (75 / 100) =
     Inr (Some (Fin (475 / 100))) \<and>
   minus_scalar (Some (Fin (475 / 100))) (Some (Fin (225 / 100))) = Some (Fin (25 / 10)) \<and>
   plus_scalar (Some (Fin (475 / 100))) (times_scalar (15 / 10) (Some (Fin (25 / 10)))) =
     Some (Fin (85 / 10)) \<and>
   outlier_mask quartile_table ''Financial Loss (in Million $)'' =
     Inr [False, False, False, False, False, True] \<and>
   outlier_count quartile_table ''Financial Loss (in Million $)'' = Inr 1"
proof -
  have q1: "quantile [Num (Fin 1), Num (Fin 2), Num (Fin 3), Num (Fin 4), Num (Fin 5), Num (Fin 100)] (1 / 4) =
     Inr (Some (Fin (9 / 4)))"
    by (simp add: quantile_def nanquantile_def lerp_def less_double_def) (simp add: rnd_eval)
  have q3: "quantile [Num (Fin 1), Num (Fin 2), Num (Fin 3), Num (Fin 4), Num (Fin 5), Num (Fin 100)] (3 / 4) =
     Inr (Some (Fin (19 / 4)))"
    by (simp add: quantile_def nanquantile_def lerp_def less_double_def) (simp add: rnd_eval)
  have iqr: "minus_scalar (Some (Fin (19 / 4))) (Some (Fin (9 / 4))) = Some (Fin (5 / 2))"
    by (simp add: rnd_eval)
  have hi: "plus_scalar (Some (Fin (19 / 4))) (times_scalar (3 / 2) (Some (Fin (5 / 2)))) =
     Some (Fin (17 / 2))"
    by (simp add: rnd_eval)
  have lo: "minus_scalar (Some (Fin (9 / 4))) (times_scalar (3 / 2) (Some (Fin (5 / 2)))) =
     Some (Fin (- 3 / 2))"
    by (simp add: rnd_eval)
  have m: "outlier_mask quartile_table ''Financial Loss (in Million $)'' =
     Inr [False, False, False, False, False, True]"
    by (simp add: outlier_mask_def and_then_def getitem_def quartile_table_def quartile_column_def
        q1 q3 series_lt_def series_gt_def mask_or_def less_double_def rnd_eval)
  then have n: "outlier_count quartile_table ''Financial Loss (in Million $)'' = Inr 1"
    by (simp add: outlier_count_def and_then_def mask_sum_def)
  from q1 q3 iqr hi m n show ?thesis by simp
qed

section \<open>Properties of the summary\<close>

text \<open>
  C9. Whatever the state (table and earlier output) in which the summary step runs, it
  prints the same text: the printed part is equal for any two states, it is the constant
  \<open>conclusions\<close>, and the table is left as it was.
\<close>

theorem conclusions_constant:
  "drop (length (out st1)) (out (print_conclusions st1)) =
     drop (length (out st2)) (out (print_conclusions st2)) \<and>
   out (print_conclusions st1) = out st1 @ [Text conclusions] \<and>
   table (print_conclusions st1) = table st1"
  by (simp add: print_conclusions_def)

end
